theory Spec2Isabelle
  imports Complex_Main "HOL-Library.Sublist"
begin

section \<open>Python primitives used by the chunker\<close>

text \<open>
  A Python \<open>str\<close> is a sequence of code points. The chunker only compares, slices and
  counts them, so a text is modelled as a list over an arbitrary element type; the
  concrete examples below use \<open>string\<close>. Python integers are unbounded: \<open>int\<close>.
\<close>

datatype error = ValueError | IndexError | BackendError

definition len :: "'a list \<Rightarrow> int" where
  "len xs = int (length xs)"

text \<open>One bound of a slice \<open>xs[lo:hi]\<close>: a negative bound counts from the end, and the
  result is clamped to \<open>0..len xs\<close>.\<close>

definition slice_bound :: "int \<Rightarrow> int \<Rightarrow> nat" where
  "slice_bound n i = nat (min n (max 0 (if i < 0 then i + n else i)))"

definition py_slice :: "'a list \<Rightarrow> int \<Rightarrow> int \<Rightarrow> 'a list" where
  "py_slice xs lo hi =
     (let l = slice_bound (len xs) lo; h = slice_bound (len xs) hi
      in take (h - l) (drop l xs))"

text \<open>\<open>separator.join(parts)\<close>.\<close>

fun join :: "'a list \<Rightarrow> 'a list list \<Rightarrow> 'a list" where
  "join sep [] = []"
| "join sep [x] = x"
| "join sep (x # y # ys) = x @ sep @ join sep (y # ys)"

text \<open>\<open>text.split(separator)\<close> for a non-empty separator: the occurrences are found
  from left to right and do not overlap. The result always has at least one element
  (\<open>split_py_not_Nil\<close> below), so the first branch of the inner \<open>case\<close> is never taken.\<close>

function split_py :: "'a list \<Rightarrow> 'a list \<Rightarrow> 'a list list" where
  "split_py sep [] = [[]]"
| "split_py sep (c # cs) =
     (if sep \<noteq> [] \<and> prefix sep (c # cs)
      then [] # split_py sep (drop (length sep) (c # cs))
      else (case split_py sep cs of
              [] \<Rightarrow> [[c]]
            | w # ws \<Rightarrow> (c # w) # ws))"
  by pat_completeness auto
termination
  by (relation "measure (\<lambda>(sep, xs). length xs)") (auto simp: neq_Nil_conv)

text \<open>\<open>str.split\<close> raises \<open>ValueError\<close> on an empty separator.\<close>

definition str_split :: "'a list \<Rightarrow> 'a list \<Rightarrow> error + 'a list list" where
  "str_split text sep = (if sep = [] then Inl ValueError else Inr (split_py sep text))"

text \<open>\<open>range(start, stop, step)\<close>: a zero step raises \<open>ValueError\<close>.\<close>

function range_up :: "int \<Rightarrow> int \<Rightarrow> int \<Rightarrow> int list" where
  "range_up i stop step =
     (if 0 < step \<and> i < stop then i # range_up (i + step) stop step else [])"
  by pat_completeness auto
termination
  by (relation "measure (\<lambda>(i, stop, step). nat (stop - i))") auto

function range_down :: "int \<Rightarrow> int \<Rightarrow> int \<Rightarrow> int list" where
  "range_down i stop step =
     (if step < 0 \<and> stop < i then i # range_down (i + step) stop step else [])"
  by pat_completeness auto
termination
  by (relation "measure (\<lambda>(i, stop, step). nat (i - stop))") auto

definition py_range :: "int \<Rightarrow> int \<Rightarrow> int \<Rightarrow> error + int list" where
  "py_range start stop step =
     (if step = 0 then Inl ValueError
      else if 0 < step then Inr (range_up start stop step)
      else Inr (range_down start stop step))"

section \<open>The chunker (rag/chunking.py)\<close>

subsection \<open>Character-stride fallback\<close>

text \<open>The body of \<open>for i in range(0, len(text), stride)\<close>, with its \<open>break\<close> once a
  window reaches the end of the text.\<close>

fun chars_loop :: "'a list \<Rightarrow> int \<Rightarrow> int list \<Rightarrow> 'a list list" where
  "chars_loop text chunk_size [] = []"
| "chars_loop text chunk_size (i # rest) =
     (let chunk_end = min (i + chunk_size) (len text) in
      if chunk_end = len text then [py_slice text i chunk_end]
      else py_slice text i chunk_end # chars_loop text chunk_size rest)"

definition chunk_text_by_chars :: "'a list \<Rightarrow> int \<Rightarrow> int \<Rightarrow> error + 'a list list" where
  "chunk_text_by_chars text chunk_size chunk_overlap =
     (if text = [] then Inr []
      else if len text \<le> chunk_size then Inr [text]
      else
        let stride0 = chunk_size - chunk_overlap;
            stride = (if stride0 \<le> 0 then chunk_size div 2 else stride0)
        in case py_range 0 (len text) stride of
             Inl e \<Rightarrow> Inl e
           | Inr idxs \<Rightarrow> Inr (chars_loop text chunk_size idxs))"

subsection \<open>Separator mode\<close>

text \<open>\<open>_estimate_chunks_for_overlap\<close>: the loop walks the segments backwards; \<open>k\<close> is
  the number of segments already counted (\<open>i = len(chunks) - 1 - k\<close>), so the test
  \<open>i < len(chunks) - 1\<close> is \<open>0 < k\<close> and the value returned is \<open>len(chunks) - i = k + 1\<close>.\<close>

fun estimate_loop :: "int \<Rightarrow> 'a list \<Rightarrow> int \<Rightarrow> nat \<Rightarrow> 'a list list \<Rightarrow> nat option" where
  "estimate_loop overlap_size sep total_size k [] = None"
| "estimate_loop overlap_size sep total_size k (c # cs) =
     (let total_size' = total_size + (if 0 < k then len sep else 0) + len c in
      if overlap_size \<le> total_size' then Some (k + 1)
      else estimate_loop overlap_size sep total_size' (k + 1) cs)"

definition estimate_chunks_for_overlap :: "'a list list \<Rightarrow> int \<Rightarrow> 'a list \<Rightarrow> nat" where
  "estimate_chunks_for_overlap chunks overlap_size sep =
     (if chunks = [] then 0
      else case estimate_loop overlap_size sep 0 0 (rev chunks) of
             Some r \<Rightarrow> r
           | None \<Rightarrow> length chunks)"

text \<open>The main loop of \<open>chunk_text\<close> over the splits, with its state
  \<open>(chunks, current_chunk, current_size)\<close>, followed by the final flush.\<close>

fun chunk_loop ::
  "int \<Rightarrow> int \<Rightarrow> 'a list \<Rightarrow> 'a list list \<Rightarrow> 'a list list \<Rightarrow> int \<Rightarrow> 'a list list \<Rightarrow> 'a list list" where
  "chunk_loop chunk_size chunk_overlap sep chunks current_chunk current_size [] =
     (if current_chunk \<noteq> [] then chunks @ [join sep current_chunk] else chunks)"
| "chunk_loop chunk_size chunk_overlap sep chunks current_chunk current_size (split # rest) =
     (if split = [] then
        chunk_loop chunk_size chunk_overlap sep chunks current_chunk current_size rest
      else
        let split_with_sep = (if current_chunk \<noteq> [] then sep @ split else split);
            split_size = len split_with_sep
        in if current_chunk \<noteq> [] \<and> chunk_size < current_size + split_size then
             let chunks' = chunks @ [join sep current_chunk];
                 overlap_start = max 0 (len current_chunk
                     - int (estimate_chunks_for_overlap current_chunk chunk_overlap sep));
                 kept = drop (nat overlap_start) current_chunk;
                 kept_size = (\<Sum>s\<leftarrow>kept. len sep + len s) - len sep
             in chunk_loop chunk_size chunk_overlap sep chunks' (kept @ [split])
                  (kept_size + split_size) rest
           else chunk_loop chunk_size chunk_overlap sep chunks (current_chunk @ [split])
                  (current_size + split_size) rest)"

definition chunk_text :: "'a list \<Rightarrow> int \<Rightarrow> int \<Rightarrow> 'a list \<Rightarrow> error + 'a list list" where
  "chunk_text text chunk_size chunk_overlap sep =
     (if text = [] then Inr []
      else case str_split text sep of
             Inl e \<Rightarrow> Inl e
           | Inr splits \<Rightarrow>
               if length splits = 1 then chunk_text_by_chars text chunk_size chunk_overlap
               else Inr (chunk_loop chunk_size chunk_overlap sep [] [] 0 splits))"

section \<open>The document processor (rag/document_processor.py)\<close>

datatype mvalue = MStr string | MInt int

type_synonym metadata = "string \<rightharpoonup> mvalue"

text \<open>A file as \<open>_process_text_file\<close> sees it: the three values derived from its path
  and the outcome of reading it (an unreadable or undecodable file raises).\<close>

record source_file =
  path_str :: string
  suffix_lower :: string
  file_name :: string
  read_result :: "error + string"

record document =
  doc_text :: string
  doc_metadata :: metadata

record processor =
  p_chunk_size :: int
  p_chunk_overlap :: int

definition base_metadata :: "source_file \<Rightarrow> metadata option \<Rightarrow> metadata" where
  "base_metadata f md =
     [''source'' \<mapsto> MStr (path_str f),
      ''file_type'' \<mapsto> MStr (suffix_lower f),
      ''file_name'' \<mapsto> MStr (file_name f)]
     ++ (case md of None \<Rightarrow> Map.empty | Some m \<Rightarrow> m)"

text \<open>The loop \<open>for i, chunk in enumerate(chunks)\<close>; \<open>n\<close> is \<open>len(chunks)\<close>.\<close>

fun make_documents :: "metadata \<Rightarrow> int \<Rightarrow> int \<Rightarrow> string list \<Rightarrow> document list" where
  "make_documents base n i [] = []"
| "make_documents base n i (chunk # rest) =
     \<lparr>doc_text = chunk,
      doc_metadata = base(''chunk_index'' \<mapsto> MInt i, ''chunk_count'' \<mapsto> MInt n)\<rparr>
     # make_documents base n (i + 1) rest"

text \<open>\<open>_process_text_file\<close>: any exception (reading the file, or the chunker's) is
  caught and gives the empty list. The chunker is called with its default separator,
  the newline.\<close>

definition process_text_file :: "processor \<Rightarrow> source_file \<Rightarrow> metadata option \<Rightarrow> document list" where
  "process_text_file p f md =
     (case read_result f of
        Inl e \<Rightarrow> []
      | Inr content \<Rightarrow>
          (case chunk_text content (p_chunk_size p) (p_chunk_overlap p) ''\<newline>'' of
             Inl e \<Rightarrow> []
           | Inr chunks \<Rightarrow> make_documents (base_metadata f md) (len chunks) 0 chunks))"

section \<open>Similarity utilities (rag/embeddings.py)\<close>

text \<open>Python floats are modelled as real numbers; \<open>float('inf')\<close> is a value of its
  own. \<open>np.dot\<close> and \<open>np.linalg.norm\<close> are the dot product and the Euclidean norm.\<close>

definition np_dot :: "real list \<Rightarrow> real list \<Rightarrow> real" where
  "np_dot v1 v2 = (\<Sum>(x, y)\<leftarrow>zip v1 v2. x * y)"

definition np_norm :: "real list \<Rightarrow> real" where
  "np_norm v = sqrt (\<Sum>x\<leftarrow>v. x * x)"

definition cosine_similarity :: "real list \<Rightarrow> real list \<Rightarrow> real" where
  "cosine_similarity vec1 vec2 =
     (if vec1 = [] \<or> vec2 = [] \<or> length vec1 \<noteq> length vec2 then 0
      else
        let dot_product = np_dot vec1 vec2;
            norm_v1 = np_norm vec1;
            norm_v2 = np_norm vec2
        in if norm_v1 = 0 \<or> norm_v2 = 0 then 0
           else dot_product / (norm_v1 * norm_v2))"

datatype distance = Infinity | Finite real

definition euclidean_distance :: "real list \<Rightarrow> real list \<Rightarrow> distance" where
  "euclidean_distance vec1 vec2 =
     (if vec1 = [] \<or> vec2 = [] \<or> length vec1 \<noteq> length vec2 then Infinity
      else Finite (np_norm (map (\<lambda>(x, y). x - y) (zip vec1 vec2))))"

section \<open>The generation provider (llm/openai.py)\<close>

text \<open>
  The remote API is the environment: the outcome of the \<open>n\<close>-th call the process makes
  is given by a function of \<open>n\<close> and the request. The world state counts the calls made
  and records the arguments of \<open>time.sleep\<close> in order.
\<close>

datatype 'a api_result = ApiError | ApiOk 'a

record chat_request =
  req_model :: string
  req_messages :: "(string \<times> string) list"
  req_max_tokens :: int
  req_temperature :: real
  req_stop :: "string list option"

text \<open>A chat response is the list of its choices' \<open>message.content\<close>, each possibly
  \<open>None\<close>; an embeddings response is the list of its \<open>data[i].embedding\<close>.\<close>

type_synonym chat_api = "nat \<Rightarrow> chat_request \<Rightarrow> string option list api_result"

type_synonym embed_api = "nat \<Rightarrow> string \<Rightarrow> real list list api_result"

record llm_config =
  cfg_max_tokens :: int
  cfg_temperature :: real

record provider =
  model_name :: string
  max_retries :: int
  retry_delay :: int

record world =
  calls :: nat
  sleeps :: "int list"

text \<open>\<open>OpenAIProvider.__init__\<close> fixes the retry policy.\<close>

definition new_provider :: "string \<Rightarrow> provider" where
  "new_provider name = \<lparr>model_name = name, max_retries = 3, retry_delay = 1\<rparr>"

text \<open>What a successful chat call returns: \<open>""\<close> when the response has no choices,
  otherwise \<open>response.choices[0].message.content or ""\<close>.\<close>

definition content_of :: "string option list \<Rightarrow> string" where
  "content_of choices =
     (case choices of
        [] \<Rightarrow> []
      | content # _ \<Rightarrow> (case content of None \<Rightarrow> [] | Some c \<Rightarrow> c))"

text \<open>The loop \<open>for attempt in range(self.max_retries)\<close>, which \<open>generate\<close> and
  \<open>generate_with_history\<close> both contain word for word. Falling out of the loop returns
  \<open>None\<close>.\<close>

fun chat_attempts ::
  "provider \<Rightarrow> chat_api \<Rightarrow> chat_request \<Rightarrow> nat list \<Rightarrow> world \<Rightarrow> string option \<times> world" where
  "chat_attempts p api req [] w = (None, w)"
| "chat_attempts p api req (attempt # rest) w =
     (let w1 = w\<lparr>calls := calls w + 1\<rparr> in
      case api (calls w) req of
        ApiOk choices \<Rightarrow> (Some (content_of choices), w1)
      | ApiError \<Rightarrow>
          if int attempt < max_retries p - 1
          then chat_attempts p api req rest
                 (w1\<lparr>sleeps := sleeps w1 @ [retry_delay p * 2 ^ attempt]\<rparr>)
          else (Some [], w1))"

text \<open>\<open>x or default\<close> for an optional number: \<open>None\<close> and zero both give the default.\<close>

definition or_default :: "'a::zero option \<Rightarrow> 'a \<Rightarrow> 'a" where
  "or_default x d = (case x of None \<Rightarrow> d | Some v \<Rightarrow> if v = 0 then d else v)"

definition generate ::
  "provider \<Rightarrow> llm_config \<Rightarrow> chat_api \<Rightarrow> string \<Rightarrow> int option \<Rightarrow> real option \<Rightarrow>
     string list option \<Rightarrow> world \<Rightarrow> string option \<times> world" where
  "generate p cfg api prompt max_tokens temperature stop_sequences w =
     chat_attempts p api
       \<lparr>req_model = model_name p, req_messages = [(''user'', prompt)],
        req_max_tokens = or_default max_tokens (cfg_max_tokens cfg),
        req_temperature = or_default temperature (cfg_temperature cfg),
        req_stop = stop_sequences\<rparr>
       [0..<nat (max_retries p)] w"

definition generate_with_history ::
  "provider \<Rightarrow> llm_config \<Rightarrow> chat_api \<Rightarrow> (string \<times> string) list \<Rightarrow> int option \<Rightarrow> real option \<Rightarrow>
     string list option \<Rightarrow> world \<Rightarrow> string option \<times> world" where
  "generate_with_history p cfg api messages max_tokens temperature stop_sequences w =
     chat_attempts p api
       \<lparr>req_model = model_name p, req_messages = messages,
        req_max_tokens = or_default max_tokens (cfg_max_tokens cfg),
        req_temperature = or_default temperature (cfg_temperature cfg),
        req_stop = stop_sequences\<rparr>
       [0..<nat (max_retries p)] w"

text \<open>\<open>get_embedding\<close>: one call inside \<open>try\<close>; a failure of the call, or an empty
  \<open>response.data\<close>, gives the empty vector.\<close>

definition get_embedding :: "provider \<Rightarrow> embed_api \<Rightarrow> string \<Rightarrow> world \<Rightarrow> real list \<times> world" where
  "get_embedding p api txt w =
     (let w1 = w\<lparr>calls := calls w + 1\<rparr> in
      case api (calls w) txt of
        ApiOk dat \<Rightarrow> (case dat of [] \<Rightarrow> ([], w1) | e # _ \<Rightarrow> (e, w1))
      | ApiError \<Rightarrow> ([], w1))"

section \<open>The Chroma vector store (rag/vector_store/chroma.py)\<close>

text \<open>A \<open>where\<close> filter is a dictionary of required metadata values; only its being
  empty or not, and its pairs, matter.\<close>

type_synonym where_filter = "(string \<times> mvalue) list"

text \<open>The dictionary \<open>collection.query\<close> returns: each field is \<open>None\<close> or a list with
  one inner list per query text.\<close>

record query_result =
  qr_documents :: "string list list option"
  qr_metadatas :: "metadata list list option"
  qr_ids :: "string list list option"
  qr_distances :: "real list list option"

record hit =
  hit_text :: string
  hit_metadata :: metadata
  hit_id :: "string option"
  hit_score :: "real option"

text \<open>
  The Chroma collection is an external library. It is a parameter: a record of its
  operations over a collection state \<open>'c\<close>, each of which may raise and may change the
  state.
\<close>

record 'c collection_api =
  c_add :: "string list \<Rightarrow> metadata list \<Rightarrow> string list \<Rightarrow> real list list option \<Rightarrow> 'c
             \<Rightarrow> (error + unit) \<times> 'c"
  c_query :: "string list \<Rightarrow> int \<Rightarrow> where_filter option \<Rightarrow> 'c \<Rightarrow> (error + query_result) \<times> 'c"
  c_get :: "where_filter \<Rightarrow> 'c \<Rightarrow> (error + string list) \<times> 'c"
  c_delete :: "string list \<Rightarrow> 'c \<Rightarrow> (error + unit) \<times> 'c"

text \<open>\<open>results[field][0][i] if results[field] and results[field][0] else default\<close>:
  \<open>None\<close> stands for the default; an index past the inner list raises.\<close>

definition field_at :: "'a list list option \<Rightarrow> nat \<Rightarrow> error + 'a option" where
  "field_at field i =
     (case field of
        None \<Rightarrow> Inr None
      | Some [] \<Rightarrow> Inr None
      | Some (l # _) \<Rightarrow>
          if l = [] then Inr None
          else if i < length l then Inr (Some (l ! i))
          else Inl IndexError)"

fun format_hits :: "query_result \<Rightarrow> nat \<Rightarrow> string list \<Rightarrow> error + hit list" where
  "format_hits res i [] = Inr []"
| "format_hits res i (doc # docs) =
     (case field_at (qr_metadatas res) i of
        Inl e \<Rightarrow> Inl e
      | Inr md \<Rightarrow>
     (case field_at (qr_ids res) i of
        Inl e \<Rightarrow> Inl e
      | Inr hid \<Rightarrow>
     (case field_at (qr_distances res) i of
        Inl e \<Rightarrow> Inl e
      | Inr sc \<Rightarrow>
     (case format_hits res (i + 1) docs of
        Inl e \<Rightarrow> Inl e
      | Inr hits \<Rightarrow>
          Inr (\<lparr>hit_text = doc,
                hit_metadata = (case md of None \<Rightarrow> Map.empty | Some m \<Rightarrow> m),
                hit_id = hid, hit_score = sc\<rparr> # hits)))))"

definition chroma_similarity_search ::
  "'c collection_api \<Rightarrow> string \<Rightarrow> int \<Rightarrow> where_filter option \<Rightarrow> 'c \<Rightarrow> hit list \<times> 'c" where
  "chroma_similarity_search api query k flt c =
     (case c_query api [query] k flt c of
        (Inl e, c') \<Rightarrow> ([], c')
      | (Inr res, c') \<Rightarrow>
          (case qr_documents res of
             None \<Rightarrow> ([], c')
           | Some [] \<Rightarrow> ([], c')
           | Some (docs # _) \<Rightarrow>
               (case format_hits res 0 docs of
                  Inl e \<Rightarrow> ([], c')
                | Inr hits \<Rightarrow> (hits, c'))))"

text \<open>\<open>add_texts\<close>; \<open>fresh n\<close> stands for the \<open>n\<close> identifiers \<open>uuid.uuid4()\<close> yields.\<close>

definition chroma_add_texts ::
  "'c collection_api \<Rightarrow> (nat \<Rightarrow> string list) \<Rightarrow> string list \<Rightarrow> metadata list option \<Rightarrow>
     string list option \<Rightarrow> real list list option \<Rightarrow> 'c \<Rightarrow> string list \<times> 'c" where
  "chroma_add_texts api fresh texts metadatas ids embeddings c =
     (if texts = [] then ([], c)
      else
        let ids' = (case ids of None \<Rightarrow> fresh (length texts) | Some given \<Rightarrow> given);
            metadatas' = (case metadatas of
                            None \<Rightarrow> replicate (length texts) Map.empty
                          | Some given \<Rightarrow> given)
        in case c_add api texts metadatas' ids' embeddings c of
             (Inr u, c') \<Rightarrow> (ids', c')
           | (Inl e, c') \<Rightarrow> ([], c'))"

text \<open>\<open>delete\<close>: \<open>if ids:\<close> and \<open>elif filter:\<close> test truthiness, so \<open>None\<close> and the empty
  list (or dictionary) take the same branch.\<close>

definition chroma_delete ::
  "'c collection_api \<Rightarrow> string list option \<Rightarrow> where_filter option \<Rightarrow> 'c \<Rightarrow> bool \<times> 'c" where
  "chroma_delete api ids flt c =
     (if ids \<noteq> None \<and> ids \<noteq> Some [] then
        (case c_delete api (the ids) c of
           (Inl e, c') \<Rightarrow> (False, c')
         | (Inr u, c') \<Rightarrow> (True, c'))
      else if flt \<noteq> None \<and> flt \<noteq> Some [] then
        (case c_get api (the flt) c of
           (Inl e, c') \<Rightarrow> (False, c')
         | (Inr found, c') \<Rightarrow>
             if found \<noteq> [] then
               (case c_delete api found c' of
                  (Inl e, c'') \<Rightarrow> (False, c'')
                | (Inr u, c'') \<Rightarrow> (True, c''))
             else (True, c'))
      else (True, c))"

definition chroma_persist :: "'c \<Rightarrow> bool \<times> 'c" where
  "chroma_persist c = (True, c)"

section \<open>The retriever (rag/retriever.py)\<close>

text \<open>
  The retriever accepts any vector store. A store is a record of its four methods
  over a store state \<open>'s\<close>; a method may raise. \<open>self.vector_store\<close> is \<open>None\<close> or a
  store object, and a store object is truthy. Every retriever operation also returns
  the list of store methods it called, in call order.
\<close>

record 's vector_store =
  vs_add_texts :: "string list \<Rightarrow> metadata list option \<Rightarrow> string list option \<Rightarrow> 's
                    \<Rightarrow> (error + string list) \<times> 's"
  vs_similarity_search :: "string \<Rightarrow> int \<Rightarrow> where_filter option \<Rightarrow> 's \<Rightarrow> (error + hit list) \<times> 's"
  vs_delete :: "string list option \<Rightarrow> where_filter option \<Rightarrow> 's \<Rightarrow> (error + bool) \<times> 's"
  vs_persist :: "'s \<Rightarrow> (error + bool) \<times> 's"

datatype store_call = AddTexts | SimilaritySearch | Delete | Persist

record 's retriever =
  r_vector_store :: "'s vector_store option"
  r_top_k :: int

definition retrieve ::
  "'s retriever \<Rightarrow> string \<Rightarrow> int option \<Rightarrow> where_filter option \<Rightarrow> 's
     \<Rightarrow> hit list \<times> 's \<times> store_call list" where
  "retrieve r query top_k flt s =
     (case r_vector_store r of
        None \<Rightarrow> ([], s, [])
      | Some vs \<Rightarrow>
          let k = or_default top_k (r_top_k r) in
          (case vs_similarity_search vs query k flt s of
             (Inr results, s') \<Rightarrow> (results, s', [SimilaritySearch])
           | (Inl e, s') \<Rightarrow> ([], s', [SimilaritySearch])))"



text \<open>The Chroma store as a vector store: its methods catch every exception.\<close>

definition chroma_store :: "'c collection_api \<Rightarrow> (nat \<Rightarrow> string list) \<Rightarrow> 'c vector_store" where
  "chroma_store api fresh =
     \<lparr>vs_add_texts = (\<lambda>texts metadatas ids c.
          case chroma_add_texts api fresh texts metadatas ids None c of (r, c') \<Rightarrow> (Inr r, c')),
      vs_similarity_search = (\<lambda>query k flt c.
          case chroma_similarity_search api query k flt c of (r, c') \<Rightarrow> (Inr r, c')),
      vs_delete = (\<lambda>ids flt c.
          case chroma_delete api ids flt c of (r, c') \<Rightarrow> (Inr r, c')),
      vs_persist = (\<lambda>c. case chroma_persist c of (r, c') \<Rightarrow> (Inr r, c'))\<rparr>"

subsection \<open>An in-memory collection for the examples\<close>

text \<open>
  A stand-in for the external collection, used only to run the operations on concrete
  inputs: entries are kept in insertion order, a query returns the first \<open>n_results\<close>
  entries that match the filter and refuses \<open>n_results \<le> 0\<close>.
\<close>

record entry =
  e_id :: string
  e_text :: string
  e_metadata :: metadata

definition matches :: "where_filter \<Rightarrow> metadata \<Rightarrow> bool" where
  "matches flt m = list_all (\<lambda>(k, v). m k = Some v) flt"

definition list_collection :: "entry list collection_api" where
  "list_collection =
     \<lparr>c_add = (\<lambda>texts metadatas ids embeddings c.
          (Inr (), c @ map (\<lambda>(i, t, m). \<lparr>e_id = i, e_text = t, e_metadata = m\<rparr>)
                         (zip ids (zip texts metadatas)))),
      c_query = (\<lambda>queries n flt c.
          if n \<le> 0 then (Inl ValueError, c)
          else
            let found = take (nat n)
                  (filter (\<lambda>e. case flt of None \<Rightarrow> True | Some f \<Rightarrow> matches f (e_metadata e)) c)
            in (Inr \<lparr>qr_documents = Some [map e_text found],
                      qr_metadatas = Some [map e_metadata found],
                      qr_ids = Some [map e_id found],
                      qr_distances = Some [map (\<lambda>e. 0) found]\<rparr>, c)),
      c_get = (\<lambda>flt c. (Inr (map e_id (filter (\<lambda>e. matches flt (e_metadata e)) c)), c)),
      c_delete = (\<lambda>ids c. (Inr (), filter (\<lambda>e. e_id e \<notin> set ids) c))\<rparr>"

definition entry_x :: entry where
  "entry_x = \<lparr>e_id = ''id1'', e_text = ''hello world'',
               e_metadata = [''source'' \<mapsto> MStr ''x.txt'']\<rparr>"

definition entry_y :: entry where
  "entry_y = \<lparr>e_id = ''id2'', e_text = ''other text'',
               e_metadata = [''source'' \<mapsto> MStr ''y.txt'']\<rparr>"

definition list_retriever :: "int \<Rightarrow> entry list retriever" where
  "list_retriever k =
     \<lparr>r_vector_store = Some (chroma_store list_collection (\<lambda>n. replicate n ''fresh'')),
      r_top_k = k\<rparr>"

definition broken_retriever :: "entry list retriever" where
  "broken_retriever =
     \<lparr>r_vector_store = Some (chroma_store
          (list_collection\<lparr>c_delete := \<lambda>ids c. (Inl BackendError, c)\<rparr>)
          (\<lambda>n. replicate n ''fresh'')),
      r_top_k = 4\<rparr>"

lemmas example_defs = list_retriever_def broken_retriever_def chroma_store_def
  list_collection_def entry_x_def entry_y_def chroma_add_texts_def chroma_delete_def
  chroma_persist_def chroma_similarity_search_def field_at_def matches_def or_default_def

section \<open>Properties of the character-stride fallback\<close>

declare range_up.simps [simp del] range_down.simps [simp del]

lemma py_slice_nonneg:
  "0 \<le> lo \<Longrightarrow> lo \<le> hi \<Longrightarrow> hi \<le> len xs \<Longrightarrow>
     py_slice xs lo hi = take (nat (hi - lo)) (drop (nat lo) xs)"
  by (simp add: py_slice_def slice_bound_def Let_def len_def nat_diff_distrib)

lemma length_py_slice:
  "0 \<le> lo \<Longrightarrow> lo \<le> hi \<Longrightarrow> hi \<le> len xs \<Longrightarrow> len (py_slice xs lo hi) = hi - lo"
  by (simp add: py_slice_nonneg) (simp add: len_def)

lemma nth_py_slice:
  "0 \<le> lo \<Longrightarrow> lo \<le> hi \<Longrightarrow> hi \<le> len xs \<Longrightarrow> int off < hi - lo \<Longrightarrow>
     py_slice xs lo hi ! off = xs ! (nat lo + off)"
  by (simp add: py_slice_nonneg) (simp add: len_def)

lemma chars_loop_range:
  "0 < s \<Longrightarrow> i < len text \<Longrightarrow>
   chars_loop text cs (range_up i (len text) s) =
     (if len text \<le> i + cs then [py_slice text i (len text)]
      else py_slice text i (i + cs) # chars_loop text cs (range_up (i + s) (len text) s))"
  by (subst range_up.simps) (auto simp: Let_def min_def)

lemma chars_loop_range_done:
  "\<not> i < len text \<Longrightarrow> chars_loop text cs (range_up i (len text) s) = []"
  by (subst range_up.simps) simp

lemma chars_loop_lengths:
  "0 < s \<Longrightarrow> 0 \<le> i \<Longrightarrow> 0 < cs \<Longrightarrow> stop = len text \<Longrightarrow>
   c \<in> set (chars_loop text cs (range_up i stop s)) \<Longrightarrow> len c \<le> cs"
proof (induction i stop s rule: range_up.induct)
  case (1 i stop step)
  show ?case
  proof (cases "i < len text")
    case False
    with 1 show ?thesis by (simp add: chars_loop_range_done)
  next
    case True
    note lt = this
    show ?thesis
    proof (cases "len text \<le> i + cs")
      case True
      with 1 lt have "c = py_slice text i (len text)"
        by (simp add: chars_loop_range)
      with 1 lt True show ?thesis by (simp add: length_py_slice)
    next
      case False
      with 1 lt have "c = py_slice text i (i + cs) \<or>
          c \<in> set (chars_loop text cs (range_up (i + step) stop step))"
        by (simp add: chars_loop_range)
      then show ?thesis
      proof
        assume "c = py_slice text i (i + cs)"
        with 1 False show ?thesis by (simp add: length_py_slice)
      next
        assume "c \<in> set (chars_loop text cs (range_up (i + step) stop step))"
        with 1 lt show ?thesis by simp
      qed
    qed
  qed
qed

lemma chars_loop_nth:
  "0 < s \<Longrightarrow> 0 \<le> i \<Longrightarrow> stop = len text \<Longrightarrow>
   k < length (chars_loop text cs (range_up i stop s)) \<Longrightarrow>
   chars_loop text cs (range_up i stop s) ! k =
     py_slice text (i + int k * s) (min (i + int k * s + cs) (len text))"
proof (induction i stop s arbitrary: k rule: range_up.induct)
  case (1 i stop step)
  show ?case
  proof (cases "i < len text")
    case False
    with 1 show ?thesis by (simp add: chars_loop_range_done)
  next
    case True
    note lt = this
    show ?thesis
    proof (cases "len text \<le> i + cs")
      case True
      with 1 lt show ?thesis by (simp add: chars_loop_range min_def)
    next
      case False
      note nf = this
      show ?thesis
      proof (cases k)
        case 0
        with 1 lt nf show ?thesis by (simp add: chars_loop_range min_def)
      next
        case (Suc k')
        with 1(2-) lt nf have k': "k' < length (chars_loop text cs (range_up (i + step) stop step))"
          by (simp add: chars_loop_range)
        have "chars_loop text cs (range_up (i + step) stop step) ! k' =
            py_slice text (i + step + int k' * step) (min (i + step + int k' * step + cs) (len text))"
          using 1(1)[of k'] 1(2-) lt k' by simp
        moreover have "i + step + int k' * step = i + int k * step"
          using Suc by (simp add: algebra_simps)
        ultimately show ?thesis using 1(2-) lt nf Suc by (simp add: chars_loop_range)
      qed
    qed
  qed
qed

lemma chars_loop_cover:
  "0 < s \<Longrightarrow> s \<le> cs \<Longrightarrow> 0 \<le> i \<Longrightarrow> stop = len text \<Longrightarrow> i \<le> j \<Longrightarrow> j < len text \<Longrightarrow>
   \<exists>k < length (chars_loop text cs (range_up i stop s)).
      i + int k * s \<le> j \<and> j < min (i + int k * s + cs) (len text)"
proof (induction i stop s rule: range_up.induct)
  case (1 i stop step)
  have lt: "i < len text" using 1 by simp
  have st: "stop = len text" "0 < step" using 1 by simp_all
  show ?case
  proof (cases "len text \<le> i + cs")
    case True
    have "chars_loop text cs (range_up i stop step) = [py_slice text i (len text)]"
      using True lt st by (simp add: chars_loop_range)
    moreover have "i + int 0 * step \<le> j \<and> j < min (i + int 0 * step + cs) (len text)"
      using 1(2-) True by simp
    ultimately show ?thesis by (intro exI[of _ 0]) simp
  next
    case False
    have eq: "chars_loop text cs (range_up i stop step) =
        py_slice text i (i + cs) # chars_loop text cs (range_up (i + step) stop step)"
      using False lt st by (simp add: chars_loop_range)
    show ?thesis
    proof (cases "j < i + cs")
      case True
      have "i + int 0 * step \<le> j \<and> j < min (i + int 0 * step + cs) (len text)"
        using 1(2-) True by simp
      then show ?thesis unfolding eq by (intro exI[of _ 0]) simp
    next
      case False
      with 1(2-) have "i + step \<le> j" by simp
      then have "\<exists>k<length (chars_loop text cs (range_up (i + step) stop step)).
         i + step + int k * step \<le> j \<and> j < min (i + step + int k * step + cs) (len text)"
        using 1(1) 1(2-) lt st by simp
      then obtain k where k: "k < length (chars_loop text cs (range_up (i + step) stop step))"
         "i + step + int k * step \<le> j" "j < min (i + step + int k * step + cs) (len text)"
        by blast
      have e: "i + step + int k * step = i + int (Suc k) * step" by (simp add: algebra_simps)
      show ?thesis
        unfolding eq using k unfolding e
        by (intro exI[of _ "Suc k"]) simp
    qed
  qed
qed

lemma chars_loop_last:
  "0 < s \<Longrightarrow> s \<le> cs \<Longrightarrow> 0 \<le> i \<Longrightarrow> stop = len text \<Longrightarrow> i < len text \<Longrightarrow>
   chars_loop text cs (range_up i stop s) \<noteq> [] \<and>
   last (chars_loop text cs (range_up i stop s)) =
     py_slice text (i + (len (chars_loop text cs (range_up i stop s)) - 1) * s) (len text)"
proof (induction i stop s rule: range_up.induct)
  case (1 i stop step)
  have st: "stop = len text" "0 < step" "i < len text" using 1 by simp_all
  show ?case
  proof (cases "len text \<le> i + cs")
    case True
    have eq: "chars_loop text cs (range_up i stop step) = [py_slice text i (len text)]"
      using True st by (simp add: chars_loop_range)
    show ?thesis unfolding eq by (simp add: len_def)
  next
    case False
    have eq: "chars_loop text cs (range_up i stop step) =
        py_slice text i (i + cs) # chars_loop text cs (range_up (i + step) stop step)"
      using False st by (simp add: chars_loop_range)
    from False 1(2-) have lt': "i + step < len text" by simp
    have ih: "chars_loop text cs (range_up (i + step) stop step) \<noteq> [] \<and>
       last (chars_loop text cs (range_up (i + step) stop step)) =
       py_slice text (i + step +
          (len (chars_loop text cs (range_up (i + step) stop step)) - 1) * step) (len text)"
      using 1(1) 1(2-) lt' by simp
    have e: "i + step + (len (chars_loop text cs (range_up (i + step) stop step)) - 1) * step
       = i + (len (py_slice text i (i + cs) #
                chars_loop text cs (range_up (i + step) stop step)) - 1) * step"
      by (simp add: len_def algebra_simps)
    show ?thesis unfolding eq using ih unfolding e by simp
  qed
qed

text \<open>
  Claim C4. For a non-empty text, \<open>chunk_size > 0\<close> and \<open>0 \<le> chunk_overlap < chunk_size\<close>:
  a text no longer than \<open>chunk_size\<close> is returned as the single chunk; a longer text gives
  chunks of length at most \<open>chunk_size\<close>, the \<open>k\<close>-th being the window that starts at
  \<open>k * (chunk_size - chunk_overlap)\<close> and is clamped to the end of the text; the last chunk
  ends exactly at the end of the text; and every position \<open>j\<close> of the text lies in some
  chunk, which holds the text's character there (nothing is dropped).
\<close>

theorem chunk_text_by_chars_stride:
  assumes "text \<noteq> []" and "0 < chunk_size" and "0 \<le> chunk_overlap"
    and "chunk_overlap < chunk_size"
  shows "(len text \<le> chunk_size \<longrightarrow>
            chunk_text_by_chars text chunk_size chunk_overlap = Inr [text]) \<and>
         (chunk_size < len text \<longrightarrow>
            (\<exists>chunks. chunk_text_by_chars text chunk_size chunk_overlap = Inr chunks \<and>
               chunks \<noteq> [] \<and>
               (\<forall>c \<in> set chunks. len c \<le> chunk_size) \<and>
               (\<forall>k < length chunks. chunks ! k =
                   py_slice text (int k * (chunk_size - chunk_overlap))
                     (min (int k * (chunk_size - chunk_overlap) + chunk_size) (len text))) \<and>
               last chunks =
                 py_slice text ((len chunks - 1) * (chunk_size - chunk_overlap)) (len text) \<and>
               (\<forall>j < length text. \<exists>k < length chunks. \<exists>off < length (chunks ! k).
                   int k * (chunk_size - chunk_overlap) + int off = int j \<and>
                   chunks ! k ! off = text ! j)))"
proof (intro conjI impI)
  assume "len text \<le> chunk_size"
  with assms show "chunk_text_by_chars text chunk_size chunk_overlap = Inr [text]"
    by (simp add: chunk_text_by_chars_def)
next
  assume big: "chunk_size < len text"
  define s where "s = chunk_size - chunk_overlap"
  define chunks where "chunks = chars_loop text chunk_size (range_up 0 (len text) s)"
  have s: "0 < s" "s \<le> chunk_size" using assms by (simp_all add: s_def)
  have pos: "0 < len text" using assms by (simp add: len_def)
  have res: "chunk_text_by_chars text chunk_size chunk_overlap = Inr chunks"
    using assms big s by (simp add: chunk_text_by_chars_def py_range_def Let_def s_def chunks_def)
  have lens: "\<forall>c \<in> set chunks. len c \<le> chunk_size"
    using chars_loop_lengths[of s 0 chunk_size "len text" "text"] s assms
    by (auto simp: chunks_def)
  have nth: "\<forall>k < length chunks. chunks ! k =
       py_slice text (int k * s) (min (int k * s + chunk_size) (len text))"
    using chars_loop_nth[of s 0 "len text" "text" _ chunk_size] s
    by (auto simp: chunks_def)
  have lst: "chunks \<noteq> [] \<and> last chunks = py_slice text ((len chunks - 1) * s) (len text)"
    using chars_loop_last[of s chunk_size 0 "len text" "text"] s pos
    by (simp add: chunks_def)
  have cov: "\<forall>j < length text. \<exists>k < length chunks. \<exists>off < length (chunks ! k).
        int k * s + int off = int j \<and> chunks ! k ! off = text ! j"
  proof (intro allI impI)
    fix j assume j: "j < length text"
    then have "\<exists>k < length chunks. 0 + int k * s \<le> int j \<and>
        int j < min (0 + int k * s + chunk_size) (len text)"
      unfolding chunks_def
      by (intro chars_loop_cover) (use s in \<open>simp_all add: len_def\<close>)
    then obtain k where k: "k < length chunks" "int k * s \<le> int j"
        "int j < min (int k * s + chunk_size) (len text)"
      by auto
    define lo where "lo = int k * s"
    define hi where "hi = min (int k * s + chunk_size) (len text)"
    have ck: "chunks ! k = py_slice text lo hi"
      using nth k(1) by (simp add: lo_def hi_def)
    have b: "0 \<le> lo" "lo \<le> hi" "hi \<le> len text" "lo \<le> int j" "int j < hi"
      using k s by (simp_all add: lo_def hi_def)
    define off where "off = j - nat lo"
    have off: "int off = int j - lo" using b by (simp add: off_def)
    have "len (chunks ! k) = hi - lo" unfolding ck using b by (intro length_py_slice)
    then have "off < length (chunks ! k)" using off b by (simp add: len_def)
    moreover have "lo + int off = int j" using off by simp
    moreover have "chunks ! k ! off = text ! j"
      unfolding ck using b off by (subst nth_py_slice) (simp_all add: off_def)
    ultimately show "\<exists>k < length chunks. \<exists>off < length (chunks ! k).
        int k * s + int off = int j \<and> chunks ! k ! off = text ! j"
      using k(1) unfolding lo_def by blast
  qed
  show "\<exists>chunks. chunk_text_by_chars text chunk_size chunk_overlap = Inr chunks \<and>
               chunks \<noteq> [] \<and>
               (\<forall>c \<in> set chunks. len c \<le> chunk_size) \<and>
               (\<forall>k < length chunks. chunks ! k =
                   py_slice text (int k * (chunk_size - chunk_overlap))
                     (min (int k * (chunk_size - chunk_overlap) + chunk_size) (len text))) \<and>
               last chunks =
                 py_slice text ((len chunks - 1) * (chunk_size - chunk_overlap)) (len text) \<and>
               (\<forall>j < length text. \<exists>k < length chunks. \<exists>off < length (chunks ! k).
                   int k * (chunk_size - chunk_overlap) + int off = int j \<and>
                   chunks ! k ! off = text ! j)"
    using res lens nth lst cov unfolding s_def by blast
qed

theorem chunk_text_by_chars_stride_witness:
  "chunk_text_by_chars ''abc'' 4 1 = Inr [''abc''] \<and>
   chunk_text_by_chars ''abcdefghij'' 4 1 = Inr [''abcd'', ''defg'', ''ghij''] \<and>
   (\<exists>chunks. chunk_text_by_chars ''abcdefghij'' 4 1 = Inr chunks \<and>
      chunks \<noteq> [] \<and>
      (\<forall>c \<in> set chunks. len c \<le> 4) \<and>
      last chunks = py_slice ''abcdefghij'' ((len chunks - 1) * (4 - 1)) (len ''abcdefghij'') \<and>
      (\<forall>j < length ''abcdefghij''. \<exists>k < length chunks. \<exists>off < length (chunks ! k).
          int k * (4 - 1) + int off = int j \<and> chunks ! k ! off = ''abcdefghij'' ! j))"
proof -
  have small: "chunk_text_by_chars ''abc'' 4 1 = Inr [''abc'']"
    using chunk_text_by_chars_stride [of "''abc''" 4 1] by (simp add: len_def)
  have val: "chunk_text_by_chars ''abcdefghij'' 4 1 = Inr [''abcd'', ''defg'', ''ghij'']"
    by code_simp
  have big: "\<exists>chunks. chunk_text_by_chars ''abcdefghij'' 4 1 = Inr chunks \<and>
      chunks \<noteq> [] \<and>
      (\<forall>c \<in> set chunks. len c \<le> 4) \<and>
      (\<forall>k < length chunks. chunks ! k =
          py_slice ''abcdefghij'' (int k * (4 - 1))
            (min (int k * (4 - 1) + 4) (len ''abcdefghij''))) \<and>
      last chunks = py_slice ''abcdefghij'' ((len chunks - 1) * (4 - 1)) (len ''abcdefghij'') \<and>
      (\<forall>j < length ''abcdefghij''. \<exists>k < length chunks. \<exists>off < length (chunks ! k).
          int k * (4 - 1) + int off = int j \<and> chunks ! k ! off = ''abcdefghij'' ! j)"
    using chunk_text_by_chars_stride [of "''abcdefghij''" 4 1] by (simp add: len_def)
  from big obtain chunks where c: "chunk_text_by_chars ''abcdefghij'' 4 1 = Inr chunks"
      "chunks \<noteq> []" "\<forall>c \<in> set chunks. len c \<le> 4"
      "last chunks = py_slice ''abcdefghij'' ((len chunks - 1) * (4 - 1)) (len ''abcdefghij'')"
      "\<forall>j < length ''abcdefghij''. \<exists>k < length chunks. \<exists>off < length (chunks ! k).
          int k * (4 - 1) + int off = int j \<and> chunks ! k ! off = ''abcdefghij'' ! j"
    by blast
  show ?thesis using small val c by blast
qed

text \<open>
  Claim C1 (the code departs from it). With \<open>chunk_size = 0\<close> the stride
  \<open>chunk_size - chunk_overlap\<close> is not positive, the replacement \<open>chunk_size // 2\<close> is \<open>0\<close>
  again, and \<open>range(0, len(text), 0)\<close> raises \<open>ValueError\<close>; the same happens for
  \<open>chunk_size = chunk_overlap = 1\<close>, and an empty separator makes \<open>str.split\<close> raise.
\<close>

theorem chunk_text_zero_size_raises:
  "chunk_text ''abc'' 0 0 [CHR 0x0A] = Inl ValueError \<and>
   chunk_text ''abc'' 1 1 [CHR 0x0A] = Inl ValueError \<and>
   chunk_text ''abc'' 1000 200 [] = Inl ValueError"
  by code_simp

section \<open>Properties of separator mode\<close>

lemma split_py_not_Nil: "split_py sep xs \<noteq> []"
  by (induction sep xs rule: split_py.induct) (auto split: list.splits)

lemma join_Cons_Cons: "join sep ((c # w) # ws) = c # join sep (w # ws)"
  by (cases ws) simp_all

lemma join_Nil_Cons: "ws \<noteq> [] \<Longrightarrow> join sep ([] # ws) = sep @ join sep ws"
  by (cases ws) simp_all

lemma join_split_py: "join sep (split_py sep xs) = xs"
proof (induction sep xs rule: split_py.induct)
  case (1 sep)
  show ?case by simp
next
  case (2 sep c cs)
  show ?case
  proof (cases "sep \<noteq> [] \<and> prefix sep (c # cs)")
    case True
    then have "c # cs = sep @ drop (length sep) (c # cs)"
      by (metis append_eq_conv_conj prefix_def)
    with 2(1) True show ?thesis
      by (simp add: join_Nil_Cons split_py_not_Nil del: drop_Suc_Cons)
  next
    case False
    obtain w ws where r: "split_py sep cs = w # ws"
      using split_py_not_Nil[of sep cs] by (cases "split_py sep cs") auto
    with 2(2) False show ?thesis
      by (auto simp: join_Cons_Cons)
  qed
qed

lemma split_py_single_iff:
  "sep \<noteq> [] \<Longrightarrow> length (split_py sep xs) = 1 \<longleftrightarrow> \<not> sublist sep xs"
proof (induction sep xs rule: split_py.induct)
  case (1 sep)
  then show ?case by simp
next
  case (2 sep c cs)
  show ?case
  proof (cases "prefix sep (c # cs)")
    case True
    then have "sublist sep (c # cs)" by (rule prefix_imp_sublist)
    with True 2(3) show ?thesis by (simp add: split_py_not_Nil)
  next
    case False
    obtain w ws where r: "split_py sep cs = w # ws"
      using split_py_not_Nil[of sep cs] by (cases "split_py sep cs") auto
    have "sublist sep (c # cs) \<longleftrightarrow> sublist sep cs"
      using False 2(3) by (simp add: sublist_Cons_right)
    with 2(2) 2(3) False r show ?thesis by simp
  qed
qed

lemma chunk_loop_filter:
  "chunk_loop cs co sep chunks cur csize (filter (\<lambda>s. s \<noteq> []) splits) =
   chunk_loop cs co sep chunks cur csize splits"
  by (induction splits arbitrary: chunks cur csize) (simp_all add: Let_def)

lemma join_append:
  "xs \<noteq> [] \<Longrightarrow> ys \<noteq> [] \<Longrightarrow> join sep (xs @ ys) = join sep xs @ sep @ join sep ys"
proof (induction sep xs rule: join.induct)
  case (2 sep x)
  then show ?case by (cases ys) simp_all
qed simp_all

lemma join_snoc:
  "join sep (xs @ [s]) = (if xs = [] then s else join sep xs @ sep @ s)"
  by (simp add: join_append)

lemma len_join_mono: "len (join sep xs) \<le> len (join sep (xs @ ys))"
proof (cases "xs = [] \<or> ys = []")
  case True
  then show ?thesis by (auto simp: len_def)
next
  case False
  then show ?thesis by (simp add: join_append len_def)
qed

lemma chunk_loop_fits:
  "\<forall>s \<in> set ss. s \<noteq> [] \<Longrightarrow>
   (cur = [] \<and> csize = 0) \<or> (cur \<noteq> [] \<and> csize = len (join sep cur)) \<Longrightarrow>
   len (join sep (cur @ ss)) \<le> cs \<Longrightarrow> cur @ ss \<noteq> [] \<Longrightarrow>
   chunk_loop cs co sep chunks cur csize ss = chunks @ [join sep (cur @ ss)]"
proof (induction ss arbitrary: cur csize)
  case Nil
  then show ?case by simp
next
  case (Cons s ss)
  have s: "s \<noteq> []" using Cons.prems(1) by simp
  define sz where "sz = csize + len (if cur \<noteq> [] then sep @ s else s)"
  have sz: "sz = len (join sep (cur @ [s]))"
    using Cons.prems(2) by (auto simp: sz_def join_snoc len_def)
  have "len (join sep (cur @ [s])) \<le> len (join sep ((cur @ [s]) @ ss))"
    by (rule len_join_mono)
  with Cons.prems(3) have fit: "sz \<le> cs" by (simp add: sz)
  have step: "chunk_loop cs co sep chunks cur csize (s # ss) =
      chunk_loop cs co sep chunks (cur @ [s]) sz ss"
    using s fit by (simp add: Let_def sz_def)
  have "chunk_loop cs co sep chunks (cur @ [s]) sz ss = chunks @ [join sep ((cur @ [s]) @ ss)]"
    using Cons.prems sz by (intro Cons.IH) simp_all
  with step show ?case by simp
qed

text \<open>
  Claim C2 (amended). For a non-empty separator and a text that has no empty
  separator-delimited segment and is no longer than \<open>chunk_size\<close>, \<open>chunk_text\<close> with
  zero overlap returns the text as its single chunk, so joining the chunks with the
  separator gives the text back.
\<close>

theorem chunk_text_single_chunk_roundtrip:
  assumes "sep \<noteq> []" and "text \<noteq> []" and "[] \<notin> set (split_py sep text)"
    and "len text \<le> chunk_size"
  shows "\<exists>chunks. chunk_text text chunk_size 0 sep = Inr chunks \<and>
           join sep chunks = text \<and> chunks = [text]"
proof (cases "length (split_py sep text) = 1")
  case True
  with assms have "chunk_text text chunk_size 0 sep = Inr [text]"
    by (simp add: chunk_text_def str_split_def chunk_text_by_chars_def)
  then show ?thesis by simp
next
  case False
  have "chunk_loop chunk_size 0 sep [] [] 0 (split_py sep text) =
      [] @ [join sep ([] @ split_py sep text)]"
    using assms by (intro chunk_loop_fits) (auto simp: join_split_py split_py_not_Nil)
  with False assms have "chunk_text text chunk_size 0 sep = Inr [text]"
    by (simp add: chunk_text_def str_split_def join_split_py)
  then show ?thesis by simp
qed

theorem chunk_text_single_chunk_roundtrip_witness:
  "split_py ''\<newline>'' ''ab\<newline>cd'' = [''ab'', ''cd''] \<and>
   chunk_text ''ab\<newline>cd'' 10 0 ''\<newline>'' = Inr [''ab\<newline>cd''] \<and>
   (\<exists>chunks. chunk_text ''ab\<newline>cd'' 10 0 ''\<newline>'' = Inr chunks \<and>
      join ''\<newline>'' chunks = ''ab\<newline>cd'')"
  using chunk_text_single_chunk_roundtrip [of "''\<newline>''" "''ab\<newline>cd''" 10]
  by (simp add: len_def)

text \<open>
  Claim C2 as stated fails twice. In \<open>a\nb\nc\nd\<close> with \<open>chunk_size = 3\<close> no segment
  exceeds the size, yet with zero overlap every closed chunk hands its last segment to
  the next one, so the chunks repeat \<open>b\<close> and \<open>c\<close>. In \<open>a\n\nb\<close> the empty segment is
  skipped and one separator is lost.
\<close>

theorem chunk_text_roundtrip_counterexample:
  "split_py ''\<newline>'' ''a\<newline>b\<newline>c\<newline>d'' = [''a'', ''b'', ''c'', ''d''] \<and>
   chunk_text ''a\<newline>b\<newline>c\<newline>d'' 3 0 ''\<newline>''
     = Inr [''a\<newline>b'', ''b\<newline>c'', ''c\<newline>d''] \<and>
   join ''\<newline>'' [''a\<newline>b'', ''b\<newline>c'', ''c\<newline>d'']
     \<noteq> ''a\<newline>b\<newline>c\<newline>d'' \<and>
   split_py ''\<newline>'' ''a\<newline>\<newline>b'' = [''a'', [], ''b''] \<and>
   chunk_text ''a\<newline>\<newline>b'' 10 0 ''\<newline>'' = Inr [''a\<newline>b''] \<and>
   join ''\<newline>'' [''a\<newline>b''] \<noteq> ''a\<newline>\<newline>b''"
  by code_simp

text \<open>
  Claim C3 (amended). For a non-empty text and separator, \<open>chunk_text\<close> falls back to the
  character-stride algorithm exactly when the separator does not occur in the text
  (\<open>text.split(separator)\<close> has one element, empty segments counted). When the separator
  occurs, the result is that of the separator loop run on the non-empty segments,
  whatever their number.
\<close>

theorem chunk_text_fallback_iff_separator_absent:
  assumes "sep \<noteq> []" and "text \<noteq> []"
  shows "chunk_text text chunk_size chunk_overlap sep =
     (if sublist sep text
      then Inr (chunk_loop chunk_size chunk_overlap sep [] [] 0
                  (filter (\<lambda>s. s \<noteq> []) (split_py sep text)))
      else chunk_text_by_chars text chunk_size chunk_overlap)"
proof -
  have single: "length (split_py sep text) = 1 \<longleftrightarrow> \<not> sublist sep text"
    using assms(1) by (rule split_py_single_iff)
  have raw: "chunk_text text chunk_size chunk_overlap sep =
     (if length (split_py sep text) = 1
      then chunk_text_by_chars text chunk_size chunk_overlap
      else Inr (chunk_loop chunk_size chunk_overlap sep [] [] 0 (split_py sep text)))"
    using assms by (simp add: chunk_text_def str_split_def)
  show ?thesis
    unfolding raw single by (simp add: chunk_loop_filter)
qed

theorem chunk_text_fallback_iff_separator_absent_witness:
  "chunk_text ''abc\<newline>\<newline>'' 2 0 ''\<newline>'' =
     Inr (chunk_loop 2 0 ''\<newline>'' [] [] 0 [''abc'']) \<and>
   chunk_text ''abc'' 2 0 ''\<newline>'' = chunk_text_by_chars ''abc'' 2 0"
proof -
  have "sublist ''\<newline>'' ''abc\<newline>\<newline>''" and "\<not> sublist ''\<newline>'' ''abc''"
    by (simp_all add: sublist_code(3))
  moreover have "filter (\<lambda>s. s \<noteq> []) (split_py ''\<newline>'' ''abc\<newline>\<newline>'') = [''abc'']"
    by simp
  ultimately show ?thesis
    using chunk_text_fallback_iff_separator_absent [of "''\<newline>''" "''abc\<newline>\<newline>''" 2 0]
      chunk_text_fallback_iff_separator_absent [of "''\<newline>''" "''abc''" 2 0]
    by simp
qed

text \<open>
  Claim C3 as stated fails: \<open>abc\n\<close> has one non-empty segment, but the separator occurs,
  so separator mode runs and returns the segment whole; the character-stride algorithm
  would have cut the text into windows of width \<open>2\<close>.
\<close>

theorem chunk_text_fallback_counterexample:
  "filter (\<lambda>s. s \<noteq> []) (split_py ''\<newline>'' ''abc\<newline>'') = [''abc''] \<and>
   chunk_text ''abc\<newline>'' 2 0 ''\<newline>'' = Inr [''abc''] \<and>
   chunk_text_by_chars ''abc\<newline>'' 2 0 = Inr [''ab'', ''c\<newline>''] \<and>
   \<not> len ''abc'' \<le> 2"
  by code_simp

section \<open>Properties of the document processor\<close>

lemma length_make_documents: "length (make_documents base n i chunks) = length chunks"
  by (induction chunks arbitrary: i) simp_all

lemma make_documents_nth:
  "k < length chunks \<Longrightarrow>
   make_documents base n i chunks ! k =
     \<lparr>doc_text = chunks ! k,
      doc_metadata = base(''chunk_index'' \<mapsto> MInt (i + int k), ''chunk_count'' \<mapsto> MInt n)\<rparr>"
proof (induction chunks arbitrary: i k)
  case Nil
  then show ?case by simp
next
  case (Cons c cs)
  show ?case
  proof (cases k)
    case 0
    then show ?thesis by (simp add: fun_eq_iff)
  next
    case (Suc k')
    with Cons.prems have "k' < length cs" by simp
    then have "make_documents base n (i + 1) cs ! k' =
       \<lparr>doc_text = cs ! k',
        doc_metadata = base(''chunk_index'' \<mapsto> MInt (i + 1 + int k'), ''chunk_count'' \<mapsto> MInt n)\<rparr>"
      by (rule Cons.IH)
    moreover have "i + 1 + int k' = i + int k" using Suc by simp
    ultimately show ?thesis using Suc by (simp add: fun_eq_iff)
  qed
qed

text \<open>
  Claim C9. For a readable file, the chunk records are exactly the chunker's chunks for
  that file's content, in order: the \<open>i\<close>-th record carries the \<open>i\<close>-th chunk,
  \<open>chunk_index = i\<close> and \<open>chunk_count\<close> equal to the number of chunks, so
  \<open>0 \<le> chunk_index < chunk_count\<close>; an empty file gives no record, and so does a file on
  which the chunker raises.
\<close>

theorem process_text_file_chunk_records:
  assumes "read_result f = Inr content"
  shows "(content = [] \<longrightarrow> process_text_file p f md = []) \<and>
    (\<forall>e. chunk_text content (p_chunk_size p) (p_chunk_overlap p) ''\<newline>'' = Inl e \<longrightarrow>
        process_text_file p f md = []) \<and>
    (\<forall>chunks. chunk_text content (p_chunk_size p) (p_chunk_overlap p) ''\<newline>'' = Inr chunks \<longrightarrow>
        length (process_text_file p f md) = length chunks \<and>
        (\<forall>i < length chunks.
            doc_text (process_text_file p f md ! i) = chunks ! i \<and>
            doc_metadata (process_text_file p f md ! i) ''chunk_index'' = Some (MInt (int i)) \<and>
            doc_metadata (process_text_file p f md ! i) ''chunk_count''
              = Some (MInt (int (length chunks))) \<and>
            0 \<le> int i \<and> int i < int (length chunks)))"
proof (intro conjI allI impI)
  assume "content = []"
  with assms show "process_text_file p f md = []"
    by (simp add: process_text_file_def chunk_text_def)
next
  fix e assume "chunk_text content (p_chunk_size p) (p_chunk_overlap p) ''\<newline>'' = Inl e"
  with assms show "process_text_file p f md = []"
    by (simp add: process_text_file_def)
next
  fix chunks
  assume c: "chunk_text content (p_chunk_size p) (p_chunk_overlap p) ''\<newline>'' = Inr chunks"
  with assms have eq: "process_text_file p f md =
      make_documents (base_metadata f md) (len chunks) 0 chunks"
    by (simp add: process_text_file_def)
  show "length (process_text_file p f md) = length chunks"
    unfolding eq by (rule length_make_documents)
  fix i assume i: "i < length chunks"
  show "doc_text (process_text_file p f md ! i) = chunks ! i"
    unfolding eq by (simp add: make_documents_nth[OF i])
  show "doc_metadata (process_text_file p f md ! i) ''chunk_index'' = Some (MInt (int i))"
    unfolding eq by (simp add: make_documents_nth[OF i])
  show "doc_metadata (process_text_file p f md ! i) ''chunk_count''
      = Some (MInt (int (length chunks)))"
    unfolding eq by (simp add: make_documents_nth[OF i] len_def)
  show "0 \<le> int i" by simp
  show "int i < int (length chunks)" using i by simp
qed

theorem process_text_file_chunk_records_witness:
  "process_text_file \<lparr>p_chunk_size = 4, p_chunk_overlap = 1\<rparr>
      \<lparr>path_str = ''docs/a.txt'', suffix_lower = ''.txt'', file_name = ''a.txt'',
       read_result = Inr []\<rparr> None = [] \<and>
   process_text_file \<lparr>p_chunk_size = 0, p_chunk_overlap = 0\<rparr>
      \<lparr>path_str = ''docs/a.txt'', suffix_lower = ''.txt'', file_name = ''a.txt'',
       read_result = Inr ''abcdef''\<rparr> None = [] \<and>
   length (process_text_file \<lparr>p_chunk_size = 4, p_chunk_overlap = 1\<rparr>
      \<lparr>path_str = ''docs/a.txt'', suffix_lower = ''.txt'', file_name = ''a.txt'',
       read_result = Inr ''abcdef''\<rparr> None) = 2 \<and>
   doc_text (process_text_file \<lparr>p_chunk_size = 4, p_chunk_overlap = 1\<rparr>
      \<lparr>path_str = ''docs/a.txt'', suffix_lower = ''.txt'', file_name = ''a.txt'',
       read_result = Inr ''abcdef''\<rparr> None ! 1) = ''def'' \<and>
   doc_metadata (process_text_file \<lparr>p_chunk_size = 4, p_chunk_overlap = 1\<rparr>
      \<lparr>path_str = ''docs/a.txt'', suffix_lower = ''.txt'', file_name = ''a.txt'',
       read_result = Inr ''abcdef''\<rparr> None ! 1) ''chunk_index'' = Some (MInt 1) \<and>
   doc_metadata (process_text_file \<lparr>p_chunk_size = 4, p_chunk_overlap = 1\<rparr>
      \<lparr>path_str = ''docs/a.txt'', suffix_lower = ''.txt'', file_name = ''a.txt'',
       read_result = Inr ''abcdef''\<rparr> None ! 1) ''chunk_count'' = Some (MInt 2)"
proof -
  define empty_file where "empty_file =
    \<lparr>path_str = ''docs/a.txt'', suffix_lower = ''.txt'', file_name = ''a.txt'',
     read_result = (Inr [] :: error + string)\<rparr>"
  define f where "f =
    \<lparr>path_str = ''docs/a.txt'', suffix_lower = ''.txt'', file_name = ''a.txt'',
     read_result = (Inr ''abcdef'' :: error + string)\<rparr>"
  define p where "p = \<lparr>p_chunk_size = 4, p_chunk_overlap = 1\<rparr>"
  define p0 where "p0 = \<lparr>p_chunk_size = 0, p_chunk_overlap = 0\<rparr>"
  have chunks: "chunk_text ''abcdef'' 4 1 ''\<newline>'' = Inr [''abcd'', ''def'']"
    by code_simp
  have raises: "chunk_text ''abcdef'' 0 0 ''\<newline>'' = Inl ValueError"
    by code_simp
  have a: "process_text_file p empty_file None = []"
    using process_text_file_chunk_records [of empty_file "[]" p None]
    by (simp add: empty_file_def)
  have b: "process_text_file p0 f None = []"
    using process_text_file_chunk_records [of f "''abcdef''" p0 None] raises
    by (simp add: f_def p0_def)
  have c: "length (process_text_file p f None) = length [''abcd'', ''def''] \<and>
      (\<forall>i < length [''abcd'', ''def''].
          doc_text (process_text_file p f None ! i) = [''abcd'', ''def''] ! i \<and>
          doc_metadata (process_text_file p f None ! i) ''chunk_index'' = Some (MInt (int i)) \<and>
          doc_metadata (process_text_file p f None ! i) ''chunk_count''
            = Some (MInt (int (length [''abcd'', ''def'']))) \<and>
          0 \<le> int i \<and> int i < int (length [''abcd'', ''def'']))"
    using process_text_file_chunk_records [of f "''abcdef''" p None] chunks
    by (simp add: f_def p_def)
  from c have c1: "doc_text (process_text_file p f None ! 1) = ''def''"
      "doc_metadata (process_text_file p f None ! 1) ''chunk_index'' = Some (MInt 1)"
      "doc_metadata (process_text_file p f None ! 1) ''chunk_count'' = Some (MInt 2)"
    by simp_all
  show ?thesis
    using a b c c1 unfolding empty_file_def f_def p_def p0_def by simp
qed

section \<open>Properties of the similarity utilities\<close>

lemma np_norm_diff_commute:
  "np_norm (map (\<lambda>(x, y). x - y) (zip a b)) = np_norm (map (\<lambda>(x, y). x - y) (zip b a))"
proof -
  have "(\<Sum>x\<leftarrow>map (\<lambda>(x, y). x - y) (zip a b). x * x) =
        (\<Sum>x\<leftarrow>map (\<lambda>(x, y). x - y) (zip b a). x * x)"
  proof (induction a b rule: list_induct2')
    case (4 x xs y ys)
    have "(x - y) * (x - y) = (y - x) * (y - x)" by (simp add: algebra_simps)
    with 4 show ?case by simp
  qed simp_all
  then show ?thesis by (simp add: np_norm_def)
qed

text \<open>
  Claim C8. \<open>cosine_similarity\<close> is \<open>0\<close> when a vector is empty, the lengths differ or a
  norm is zero; \<open>euclidean_distance\<close> is infinite when a vector is empty or the lengths
  differ; and \<open>euclidean_distance\<close> is symmetric. Every case is a value of the function:
  nothing raises.
\<close>

theorem similarity_degenerate_cases:
  "(a = [] \<or> b = [] \<or> length a \<noteq> length b \<or> np_norm a = 0 \<or> np_norm b = 0
      \<longrightarrow> cosine_similarity a b = 0) \<and>
   (a = [] \<or> b = [] \<or> length a \<noteq> length b \<longrightarrow> euclidean_distance a b = Infinity) \<and>
   euclidean_distance a b = euclidean_distance b a"
proof (intro conjI impI)
  assume "a = [] \<or> b = [] \<or> length a \<noteq> length b \<or> np_norm a = 0 \<or> np_norm b = 0"
  then show "cosine_similarity a b = 0"
    by (auto simp: cosine_similarity_def Let_def)
next
  assume "a = [] \<or> b = [] \<or> length a \<noteq> length b"
  then show "euclidean_distance a b = Infinity"
    by (auto simp: euclidean_distance_def)
next
  show "euclidean_distance a b = euclidean_distance b a"
    using np_norm_diff_commute[of a b] by (auto simp: euclidean_distance_def)
qed

theorem similarity_degenerate_cases_witness:
  "cosine_similarity [] [1, 2] = 0 \<and> euclidean_distance [] [1, 2] = Infinity \<and>
   cosine_similarity [1, 2] [1, 2, 3] = 0 \<and> euclidean_distance [1, 2] [1, 2, 3] = Infinity \<and>
   cosine_similarity [0, 0] [1, 2] = 0 \<and>
   euclidean_distance [1, 2] [4, 6] = euclidean_distance [4, 6] [1, 2] \<and>
   euclidean_distance [1, 2] [4, 6] = Finite 5"
proof -
  have z: "np_norm [0, 0] = 0" by (simp add: np_norm_def)
  have "np_norm (map (\<lambda>(x, y). x - y) (zip [1, 2] [4, 6])) = sqrt (5 * 5)"
    by (simp add: np_norm_def)
  then have five: "euclidean_distance [1, 2] [4, 6] = Finite 5"
    by (simp add: euclidean_distance_def del: real_sqrt_mult_self)
  show ?thesis
    using similarity_degenerate_cases [of "[]" "[1, 2]"]
      similarity_degenerate_cases [of "[1, 2]" "[1, 2, 3]"]
      similarity_degenerate_cases [of "[0, 0]" "[1, 2]"]
      similarity_degenerate_cases [of "[1, 2]" "[4, 6]"] z five
    by simp
qed

section \<open>Properties of the generation provider\<close>

lemma chat_attempts_exhaust:
  "\<forall>i < n - a. api (calls w + i) req = ApiError \<Longrightarrow> max_retries p = int n \<Longrightarrow> a < n \<Longrightarrow>
   chat_attempts p api req [a..<n] w =
     (Some [], w\<lparr>calls := calls w + (n - a),
                  sleeps := sleeps w @ map (\<lambda>t. retry_delay p * 2 ^ t) [a..<n - 1]\<rparr>)"
proof (induction "n - a" arbitrary: a w)
  case 0
  then show ?case by simp
next
  case (Suc m)
  have fail: "api (calls w) req = ApiError" using Suc.prems(1) Suc.prems(3) by force
  have up: "[a..<n] = a # [Suc a..<n]" using Suc.prems(3) by (simp add: upt_conv_Cons)
  show ?case
  proof (cases "Suc a < n")
    case False
    then have "n = Suc a" using Suc.prems(3) by simp
    then show ?thesis using fail Suc.prems(2) by (simp add: up)
  next
    case True
    define w' where "w' = w\<lparr>calls := calls w + 1, sleeps := sleeps w @ [retry_delay p * 2 ^ a]\<rparr>"
    have step: "chat_attempts p api req [a..<n] w = chat_attempts p api req [Suc a..<n] w'"
      using fail True Suc.prems(2) by (simp add: up w'_def Let_def)
    have "\<forall>i < n - Suc a. api (calls w' + i) req = ApiError"
    proof (intro allI impI)
      fix i assume "i < n - Suc a"
      then have "Suc i < n - a" by simp
      with Suc.prems(1) have "api (calls w + Suc i) req = ApiError" by blast
      then show "api (calls w' + i) req = ApiError" by (simp add: w'_def)
    qed
    then have "chat_attempts p api req [Suc a..<n] w' =
       (Some [], w'\<lparr>calls := calls w' + (n - Suc a),
                  sleeps := sleeps w' @ map (\<lambda>t. retry_delay p * 2 ^ t) [Suc a..<n - 1]\<rparr>)"
      using Suc.hyps Suc.prems(2) True by (intro Suc.hyps(1)) simp_all
    moreover have "[a..<n - 1] = a # [Suc a..<n - 1]"
      using True by (simp add: upt_conv_Cons)
    ultimately show ?thesis using step True by (simp add: w'_def)
  qed
qed

lemma chat_attempts_retry:
  "\<forall>i < k. api (calls w + i) req = ApiError \<Longrightarrow> api (calls w + k) req = ApiOk choices \<Longrightarrow>
   max_retries p = int n \<Longrightarrow> a + k < n \<Longrightarrow>
   chat_attempts p api req [a..<n] w =
     (Some (content_of choices),
      w\<lparr>calls := calls w + k + 1, sleeps := sleeps w @ map (\<lambda>t. retry_delay p * 2 ^ t) [a..<a + k]\<rparr>)"
proof (induction k arbitrary: a w)
  case 0
  then have up: "[a..<n] = a # [Suc a..<n]" by (simp add: upt_conv_Cons)
  from 0 show ?case by (simp add: up)
next
  case (Suc k)
  have fail: "api (calls w) req = ApiError" using Suc.prems(1) by force
  have up: "[a..<n] = a # [Suc a..<n]" using Suc.prems(4) by (simp add: upt_conv_Cons)
  define w' where "w' = w\<lparr>calls := calls w + 1, sleeps := sleeps w @ [retry_delay p * 2 ^ a]\<rparr>"
  have step: "chat_attempts p api req [a..<n] w = chat_attempts p api req [Suc a..<n] w'"
    using fail Suc.prems(3,4) by (simp add: up w'_def Let_def)
  have f': "\<forall>i < k. api (calls w' + i) req = ApiError"
  proof (intro allI impI)
    fix i assume "i < k"
    then have "Suc i < Suc k" by simp
    with Suc.prems(1) have "api (calls w + Suc i) req = ApiError" by blast
    then show "api (calls w' + i) req = ApiError" by (simp add: w'_def)
  qed
  have ok': "api (calls w' + k) req = ApiOk choices"
    using Suc.prems(2) by (simp add: w'_def)
  have "chat_attempts p api req [Suc a..<n] w' =
     (Some (content_of choices),
      w'\<lparr>calls := calls w' + k + 1, sleeps := sleeps w' @ map (\<lambda>t. retry_delay p * 2 ^ t) [Suc a..<Suc a + k]\<rparr>)"
    using f' ok' Suc.prems(3,4) by (intro Suc.IH) simp_all
  moreover have "[a..<a + Suc k] = a # [Suc a..<Suc a + k]"
    by (simp add: upt_conv_Cons)
  ultimately show ?case using step by (simp add: w'_def)
qed

text \<open>
  The retry policy of the two generation operations. With \<open>max_retries > 0\<close>: when every
  call fails, exactly \<open>max_retries\<close> calls are made, the process sleeps
  \<open>retry_delay * 2 ^ attempt\<close> after each failed attempt but the last, and the result is
  the empty string; when the first \<open>k < max_retries\<close> calls fail and the next one
  succeeds, its content is returned after \<open>k\<close> sleeps.
\<close>

theorem chat_retry_policy:
  assumes "0 < max_retries p"
  shows
   "((\<forall>i < nat (max_retries p). \<forall>r. chat (calls w + i) r = ApiError) \<longrightarrow>
       generate p cfg chat prompt mt temp stop w =
         (Some [], w\<lparr>calls := calls w + nat (max_retries p),
                      sleeps := sleeps w @ map (\<lambda>t. retry_delay p * 2 ^ t)
                                  [0..<nat (max_retries p) - 1]\<rparr>) \<and>
       generate_with_history p cfg chat msgs mt temp stop w =
         (Some [], w\<lparr>calls := calls w + nat (max_retries p),
                      sleeps := sleeps w @ map (\<lambda>t. retry_delay p * 2 ^ t)
                                  [0..<nat (max_retries p) - 1]\<rparr>)) \<and>
    (\<forall>k choices. int k < max_retries p \<longrightarrow>
       (\<forall>i < k. \<forall>r. chat (calls w + i) r = ApiError) \<longrightarrow>
       (\<forall>r. chat (calls w + k) r = ApiOk choices) \<longrightarrow>
       generate p cfg chat prompt mt temp stop w =
         (Some (content_of choices),
          w\<lparr>calls := calls w + k + 1,
            sleeps := sleeps w @ map (\<lambda>t. retry_delay p * 2 ^ t) [0..<k]\<rparr>) \<and>
       generate_with_history p cfg chat msgs mt temp stop w =
         (Some (content_of choices),
          w\<lparr>calls := calls w + k + 1,
            sleeps := sleeps w @ map (\<lambda>t. retry_delay p * 2 ^ t) [0..<k]\<rparr>))"
proof -
  define n where "n = nat (max_retries p)"
  have n: "max_retries p = int n" "0 < n" using assms by (simp_all add: n_def)
  have exhaust: "chat_attempts p chat req [0..<n] w =
       (Some [], w\<lparr>calls := calls w + n,
                    sleeps := sleeps w @ map (\<lambda>t. retry_delay p * 2 ^ t) [0..<n - 1]\<rparr>)"
    if "\<forall>i < n. \<forall>r. chat (calls w + i) r = ApiError" for req
    using chat_attempts_exhaust[of n 0 chat w req p] that n by simp
  have retry: "chat_attempts p chat req [0..<n] w =
       (Some (content_of choices),
        w\<lparr>calls := calls w + k + 1,
          sleeps := sleeps w @ map (\<lambda>t. retry_delay p * 2 ^ t) [0..<k]\<rparr>)"
    if "k < n" "\<forall>i < k. \<forall>r. chat (calls w + i) r = ApiError"
       "\<forall>r. chat (calls w + k) r = ApiOk choices" for req k choices
    using chat_attempts_retry[of k chat w req choices p n 0] that n by simp
  show ?thesis
    unfolding generate_def generate_with_history_def n_def[symmetric]
    using exhaust retry n(1)
    by auto
qed

theorem chat_retry_policy_witness:
  "generate (new_provider ''gpt'') cfg (\<lambda>n r. ApiError) ''hi'' None None None
       \<lparr>calls = 0, sleeps = []\<rparr> = (Some [], \<lparr>calls = 3, sleeps = [1, 2]\<rparr>) \<and>
   generate_with_history (new_provider ''gpt'') cfg (\<lambda>n r. ApiError) [(''user'', ''hi'')]
       None None None \<lparr>calls = 0, sleeps = []\<rparr> = (Some [], \<lparr>calls = 3, sleeps = [1, 2]\<rparr>) \<and>
   generate (new_provider ''gpt'') cfg (\<lambda>n r. if n < 2 then ApiError else ApiOk [Some ''ok''])
       ''hi'' None None None \<lparr>calls = 0, sleeps = []\<rparr>
     = (Some ''ok'', \<lparr>calls = 3, sleeps = [1, 2]\<rparr>)"
proof -
  have m: "0 < max_retries (new_provider ''gpt'')" by (simp add: new_provider_def)
  have two: "[0..<2] = [0, 1]" by (simp add: upt_rec)
  note a = chat_retry_policy [OF m, where w = "\<lparr>calls = 0, sleeps = []\<rparr>"
      and chat = "\<lambda>n r. ApiError" and cfg = cfg and prompt = "''hi''" and mt = None
      and temp = None and stop = None and msgs = "[(''user'', ''hi'')]"]
  note b = chat_retry_policy [OF m, where w = "\<lparr>calls = 0, sleeps = []\<rparr>"
      and chat = "\<lambda>n r. if n < 2 then ApiError else ApiOk [Some ''ok'']" and cfg = cfg
      and prompt = "''hi''" and mt = None and temp = None and stop = None
      and msgs = "[(''user'', ''hi'')]"]
  from b have b2: "generate (new_provider ''gpt'') cfg
        (\<lambda>n r. if n < 2 then ApiError else ApiOk [Some ''ok''])
        ''hi'' None None None \<lparr>calls = 0, sleeps = []\<rparr>
      = (Some (content_of [Some ''ok'']),
         \<lparr>calls = 0, sleeps = []\<rparr>\<lparr>calls := 0 + 2 + 1,
            sleeps := [] @ map (\<lambda>t. retry_delay (new_provider ''gpt'') * 2 ^ t) [0..<2]\<rparr>)"
    by (elim conjE allE[of _ 2] allE[of _ "[Some ''ok'']"]) (simp add: new_provider_def)
  show ?thesis
    using a b2 by (simp add: new_provider_def content_of_def two)
qed

text \<open>
  Claim C5 (the code departs from it). \<open>get_embedding\<close> makes a single call: when the
  first call fails it returns the empty vector at once, without sleeping, although a
  second call would have succeeded; \<open>generate\<close>, against a provider failing in the same
  way, sleeps one second, calls again and returns the content.
\<close>

theorem get_embedding_single_attempt:
  "get_embedding (new_provider ''gpt'') (\<lambda>n t. if n = 0 then ApiError else ApiOk [[1, 2]])
       ''hi'' \<lparr>calls = 0, sleeps = []\<rparr> = ([], \<lparr>calls = 1, sleeps = []\<rparr>) \<and>
   generate (new_provider ''gpt'') \<lparr>cfg_max_tokens = 100, cfg_temperature = 1\<rparr>
       (\<lambda>n r. if n = 0 then ApiError else ApiOk [Some ''ok''])
       ''hi'' None None None \<lparr>calls = 0, sleeps = []\<rparr>
     = (Some ''ok'', \<lparr>calls = 2, sleeps = [1]\<rparr>)"
  by (simp add: get_embedding_def generate_def new_provider_def content_of_def upt_rec)

section \<open>Properties of the retriever\<close>



text \<open>
  Claim C6 (the code departs from it). \<open>top_k = 0\<close> is falsy, so \<open>top_k or self.top_k\<close>
  replaces it by the default: the call behaves as if no \<open>top_k\<close> had been passed, and
  with the default \<open>4\<close> a store of five entries answers with four results.
\<close>

theorem retrieve_zero_top_k_uses_default:
  "retrieve r query (Some 0) flt s = retrieve r query None flt s \<and>
   map hit_text (fst (retrieve (list_retriever 4) ''q'' (Some 0) None
        [entry_x, entry_y, entry_x, entry_y, entry_x]))
     = [''hello world'', ''other text'', ''hello world'', ''other text'']"
proof
  have eq: "or_default (Some 0) (r_top_k r) = or_default None (r_top_k r)"
    by (simp add: or_default_def)
  show "retrieve r query (Some 0) flt s = retrieve r query None flt s"
    unfolding retrieve_def eq by (rule refl)
  show "map hit_text (fst (retrieve (list_retriever 4) ''q'' (Some 0) None
        [entry_x, entry_y, entry_x, entry_y, entry_x]))
     = [''hello world'', ''other text'', ''hello world'', ''other text'']"
    by (simp add: retrieve_def example_defs)
qed

text \<open>
  What \<open>retrieve\<close> returns otherwise: nothing without a store, nothing when the store
  raises, and else exactly the list the store returned for the effective \<open>k\<close>, in the
  store's order.
\<close>

theorem retrieve_returns_store_results:
  "(r_vector_store r = None \<longrightarrow> retrieve r query top_k flt s = ([], s, [])) \<and>
   (\<forall>vs hits s'. r_vector_store r = Some vs \<longrightarrow>
       vs_similarity_search vs query (or_default top_k (r_top_k r)) flt s = (Inr hits, s') \<longrightarrow>
       fst (retrieve r query top_k flt s) = hits) \<and>
   (\<forall>vs e s'. r_vector_store r = Some vs \<longrightarrow>
       vs_similarity_search vs query (or_default top_k (r_top_k r)) flt s = (Inl e, s') \<longrightarrow>
       fst (retrieve r query top_k flt s) = [])"
  by (simp add: retrieve_def)

theorem retrieve_returns_store_results_witness:
  "retrieve \<lparr>r_vector_store = None, r_top_k = 4\<rparr> ''q'' (Some 1) None [entry_x, entry_y]
     = ([], [entry_x, entry_y], []) \<and>
   map hit_text (fst (retrieve (list_retriever 4) ''q'' (Some 1) None [entry_x, entry_y]))
     = [''hello world''] \<and>
   fst (retrieve (list_retriever 4) ''q'' (Some (- 1)) None [entry_x, entry_y]) = []"
proof -
  have a: "retrieve \<lparr>r_vector_store = None, r_top_k = 4\<rparr> ''q'' (Some 1) None [entry_x, entry_y]
     = ([], [entry_x, entry_y], [])"
    using retrieve_returns_store_results
      [of "\<lparr>r_vector_store = None, r_top_k = 4\<rparr>" "''q''" "Some 1" None "[entry_x, entry_y]"]
    by simp
  have b: "map hit_text (fst (retrieve (list_retriever 4) ''q'' (Some 1) None [entry_x, entry_y]))
     = [''hello world'']"
    by (simp add: retrieve_def example_defs)
  have c: "fst (retrieve (list_retriever 4) ''q'' (Some (- 1)) None [entry_x, entry_y]) = []"
    by (simp add: retrieve_def example_defs)
  show ?thesis using a b c by simp
qed

section \<open>Properties of the Chroma store\<close>

text \<open>
  Claim C10 (amended). \<open>delete\<close> with neither ids nor filter touches nothing and returns
  \<open>True\<close>. With a non-empty list of ids it makes the one call \<open>collection.delete(ids)\<close>
  and returns whether that call succeeded; the filter, present or not, plays no part.
\<close>

theorem chroma_delete_branches:
  "chroma_delete api None None c = (True, c) \<and>
   (ids \<noteq> [] \<longrightarrow>
      chroma_delete api (Some ids) flt c =
        (case c_delete api ids c of (Inl e, c') \<Rightarrow> (False, c') | (Inr u, c') \<Rightarrow> (True, c')) \<and>
      chroma_delete api (Some ids) flt c = chroma_delete api (Some ids) None c)"
  by (simp add: chroma_delete_def)

theorem chroma_delete_branches_witness:
  "chroma_delete list_collection None None [entry_x, entry_y] = (True, [entry_x, entry_y]) \<and>
   chroma_delete list_collection (Some [''id1'']) (Some [(''source'', MStr ''y.txt'')])
       [entry_x, entry_y] = (True, [entry_y])"
proof -
  have "c_delete list_collection [''id1''] [entry_x, entry_y] = (Inr (), [entry_y])"
    by (simp add: example_defs)
  then show ?thesis
    using chroma_delete_branches [of list_collection "[entry_x, entry_y]" "[''id1'']"
        "Some [(''source'', MStr ''y.txt'')]"]
    by simp
qed

text \<open>
  Claim C10 as stated fails when the ids supplied are the empty list: \<open>if ids:\<close> is
  false, the filter branch runs and the matching entry is deleted, whereas the same call
  without the filter deletes nothing.
\<close>

theorem chroma_delete_empty_ids_counterexample:
  "chroma_delete list_collection (Some []) (Some [(''source'', MStr ''y.txt'')])
       [entry_x, entry_y] = (True, [entry_x]) \<and>
   chroma_delete list_collection (Some []) None [entry_x, entry_y] = (True, [entry_x, entry_y])"
  by (simp add: example_defs)

end
